theory Spec2Isabelle
  imports Complex_Main "HOL-Library.Sublist"
begin

section \<open>Values, exceptions and calls to collaborators\<close>

text \<open>
  The bridge of \<^verbatim>\<open>bridge.py\<close> owns a listener, a serial connector, one
  \<^verbatim>\<open>HiveSide\<close> per camera, an optional statistics sink and a lazily opened screen.
  Their classes live in other modules; here every call the bridge makes on one of them is
  appended to a call history kept in the bridge state, and what such a call returns or
  whether it raises is a parameter (the record \<open>env\<close> and the per-iteration record
  \<open>tick\<close> below). Python floats are read as real numbers.
\<close>

datatype py_error = KeyError | IndexError | StopIteration | CollaboratorError

type_synonym cam_id = string

text \<open>\<^verbatim>\<open>CombTriggerActuatorMessage(idx, signal_index=1, side=1)\<close>: the three constructor arguments.\<close>

record CombTriggerActuatorMessage =
  idx :: int
  signal_index :: int
  side :: int

datatype call =
    LogFn string
  | LogText string
  | WddClose
  | CombClose
  | CamClose cam_id
  | StatisticsClose
  | ScreenClose
  | WddGetMessage
  | CombSendMessage CombTriggerActuatorMessage
  | ScreenOpen
  | ScreenClearBuffer
  | ScreenGetKey
  | ScreenDrawing
  | ScreenPrintAt string int int
  | ScreenRefresh
  | Stdout string

text \<open>
  The collaborators' behaviour. \<open>map_to_comb\<close> is the camera's
  \<^verbatim>\<open>comb_mapper.map_to_comb(x, y, waggle_angle)\<close>, returning
  \<^verbatim>\<open>xy, (waggle_angle, world_angle), (idx, distance)\<close> or raising; the four
  \<open>_close_raises\<close> flags say whether the resource's \<^verbatim>\<open>close()\<close> raises;
  \<open>send_raises\<close> whether \<^verbatim>\<open>comb.send_message\<close> raises on a message;
  \<open>fmt_1f\<close> is \<^verbatim>\<open>"{:1.1f}".format\<close>; \<open>time_iso\<close> renders the clock reading as
  \<^verbatim>\<open>datetime.datetime.utcnow().time().isoformat()\<close> does, and \<open>datetime_iso\<close> as
  \<^verbatim>\<open>datetime.datetime.utcnow().isoformat()\<close> does.
\<close>

record env =
  map_to_comb :: "cam_id \<Rightarrow> real \<Rightarrow> real \<Rightarrow> real \<Rightarrow>
                    py_error + ((real \<times> real) \<times> (real \<times> real) \<times> (int \<times> real))"
  wdd_close_raises :: bool
  comb_close_raises :: bool
  statistics_close_raises :: bool
  screen_close_raises :: bool
  send_raises :: "CombTriggerActuatorMessage \<Rightarrow> bool"
  fmt_1f :: "real \<Rightarrow> string"
  time_iso :: "nat \<Rightarrow> string"
  datetime_iso :: "nat \<Rightarrow> string"

text \<open>
  The bridge's state. \<open>statistics\<close> and \<open>screen\<close> say whether
  \<^verbatim>\<open>self.statistics\<close> and \<^verbatim>\<open>self.screen\<close> are not \<^verbatim>\<open>None\<close>; \<open>cameras\<close> lists the keys of
  the dict \<^verbatim>\<open>self.cameras\<close> in insertion order, each standing for the \<^verbatim>\<open>HiveSide\<close> built
  with that \<^verbatim>\<open>cam_id\<close>; \<open>log_buf\<close> is the list \<^verbatim>\<open>self.log\<close>; \<open>clock\<close> counts the readings
  of the UTC clock; \<open>calls\<close> is the history of calls made on collaborators.
\<close>

record bridge =
  running :: bool
  log_buf :: "string list"
  statistics :: bool
  cameras :: "cam_id list"
  screen :: bool
  clock :: nat
  calls :: "call list"

section \<open>Logging\<close>

text \<open>
  \<^verbatim>\<open>self.log_fn\<close> is \<^verbatim>\<open>self.statistics.log\<close> when a statistics file is configured and
  \<^verbatim>\<open>lambda _, **_kwargs: None\<close> otherwise.
\<close>

definition log_fn :: "string \<Rightarrow> bridge \<Rightarrow> bridge" where
  "log_fn name s = (if statistics s then s\<lparr>calls := calls s @ [LogFn name]\<rparr> else s)"

text \<open>The closure \<^verbatim>\<open>print_fn\<close> of \<^verbatim>\<open>Bridge.__init__\<close>.\<close>

definition print_fn :: "env \<Rightarrow> string \<Rightarrow> bridge \<Rightarrow> bridge" where
  "print_fn e x s =
     (let s1 = s\<lparr>log_buf := log_buf s @ [''['' @ time_iso e (clock s) @ ''] '' @ x],
                 clock := Suc (clock s)\<rparr>
      in if statistics s1 then s1\<lparr>calls := calls s1 @ [LogText x]\<rparr> else s1)"

section \<open>Bridge.stop\<close>

text \<open>A statement that may raise returns the exception, if any, with the state reached.\<close>

type_synonym stmt = "bridge \<Rightarrow> py_error option \<times> bridge"

definition andthen :: "stmt \<Rightarrow> stmt \<Rightarrow> stmt" where
  "andthen f g s = (case f s of (None, s1) \<Rightarrow> g s1 | (Some err, s1) \<Rightarrow> (Some err, s1))"

definition ext_call :: "call \<Rightarrow> bool \<Rightarrow> stmt" where
  "ext_call c raises s =
     (if raises then Some CollaboratorError else None, s\<lparr>calls := calls s @ [c]\<rparr>)"

text \<open>\<^verbatim>\<open>HiveSide.close\<close> is \<^verbatim>\<open>pass\<close>: it cannot raise.\<close>

fun close_cameras :: "cam_id list \<Rightarrow> stmt" where
  "close_cameras [] s = (None, s)"
| "close_cameras (c # cs) s = close_cameras cs (s\<lparr>calls := calls s @ [CamClose c]\<rparr>)"

definition stop :: "env \<Rightarrow> stmt" where
  "stop e s =
     (if running s then
        andthen (ext_call WddClose (wdd_close_raises e))
       (andthen (ext_call CombClose (comb_close_raises e))
       (andthen (close_cameras (cameras s))
       (andthen (\<lambda>s'. if statistics s' then ext_call StatisticsClose (statistics_close_raises e) s'
                       else (None, s'))
                (\<lambda>s'. if screen s' then ext_call ScreenClose (screen_close_raises e) s'
                       else (None, s')))))
          ((log_fn ''stopping execution'' s)\<lparr>running := False\<rparr>)
      else (None, s))"

section \<open>HiveSide.process\<close>

definition world_directions :: "string list" where
  "world_directions =
     [''E'', ''NEE'', ''NE'', ''NNE'',
      ''N'', ''NNW'', ''NW'', ''NWW'',
      ''W'', ''SWW'', ''SW'', ''SSW'',
      ''S'', ''SSE'', ''SE'', ''SEE'']"

text \<open>Python's \<^verbatim>\<open>a % b\<close> on floats (the result takes the sign of \<open>b\<close>), over the reals.\<close>

definition py_mod :: "real \<Rightarrow> real \<Rightarrow> real" where
  "py_mod a b = a - b * of_int \<lfloor>a / b\<rfloor>"

text \<open>Python's \<^verbatim>\<open>int(r)\<close> truncates towards zero.\<close>

definition py_int :: "real \<Rightarrow> int" where
  "py_int r = (if 0 \<le> r then \<lfloor>r\<rfloor> else \<lceil>r\<rceil>)"

text \<open>\<^verbatim>\<open>xs[i]\<close>: a negative index counts from the end, an index out of range raises.\<close>

definition py_getitem :: "'a list \<Rightarrow> int \<Rightarrow> py_error + 'a" where
  "py_getitem xs i =
     (if 0 \<le> i \<and> i < int (length xs) then Inr (xs ! nat i)
      else if i < 0 \<and> - int (length xs) \<le> i then Inr (xs ! nat (int (length xs) + i))
      else Inl IndexError)"

definition direction_index :: "real \<Rightarrow> int" where
  "direction_index world_angle =
     (let angle = py_mod (2 * pi + world_angle) (2 * pi)
      in py_int ((angle / pi * 180) / (360 / real (length world_directions))))"

definition world_direction :: "real \<Rightarrow> py_error + string" where
  "world_direction world_angle = py_getitem world_directions (direction_index world_angle)"

text \<open>
  The line \<^verbatim>\<open>"Vibrating for {} ({:1.1f}\<degree>) (cam '{}', hive angle {:1.1f}\<degree>)"\<close>; the degree
  sign is written as its two UTF-8 bytes.
\<close>

definition degree_sign :: string where
  "degree_sign = [CHR 0xC2, CHR 0xB0]"

definition vibrating_line :: "env \<Rightarrow> string \<Rightarrow> real \<Rightarrow> cam_id \<Rightarrow> real \<Rightarrow> string" where
  "vibrating_line e world_dir world_angle cam waggle_angle =
     ''Vibrating for '' @ world_dir @ '' ('' @ fmt_1f e (world_angle / pi * 180) @ degree_sign
       @ '') (cam '' @ [CHR 0x27] @ cam @ [CHR 0x27] @ '', hive angle ''
       @ fmt_1f e (waggle_angle / pi * 180) @ degree_sign @ '')''"

text \<open>
  One pass of the \<^verbatim>\<open>for\<close> loop of \<^verbatim>\<open>HiveSide.process\<close>, from the observation to the
  \<^verbatim>\<open>yield\<close>: the message yielded, or the exception raised on the way.
\<close>

definition process_one ::
  "env \<Rightarrow> cam_id \<Rightarrow> real \<times> real \<times> real \<Rightarrow> bridge \<Rightarrow> (py_error + CombTriggerActuatorMessage) \<times> bridge"
where
  "process_one e cam c s =
     (case c of (x, y, waggle_angle0) \<Rightarrow>
        (case map_to_comb e cam x y waggle_angle0 of
           Inl err \<Rightarrow> (Inl err, s)
         | Inr (xy, (waggle_angle, world_angle), (i, distance)) \<Rightarrow>
             (case world_direction world_angle of
                Inl err \<Rightarrow> (Inl err, s)
              | Inr world_dir \<Rightarrow>
                  (Inr \<lparr>idx = i, signal_index = 1, side = 1\<rparr>,
                   print_fn e (vibrating_line e world_dir world_angle cam waggle_angle) s))))"

text \<open>
  The generator \<^verbatim>\<open>HiveSide.process\<close> run to its end over the observations
  \<^verbatim>\<open>self.dance_detector.process(waggle_info)\<close> gives: the messages yielded in order, and the
  exception that ended it early, if any.
\<close>

fun process ::
  "env \<Rightarrow> cam_id \<Rightarrow> (real \<times> real \<times> real) list \<Rightarrow> bridge
     \<Rightarrow> (py_error option \<times> CombTriggerActuatorMessage list) \<times> bridge"
where
  "process e cam [] s = ((None, []), s)"
| "process e cam (c # cs) s =
     (case process_one e cam c s of
        (Inl err, s1) \<Rightarrow> ((Some err, []), s1)
      | (Inr m, s1) \<Rightarrow>
          (case process e cam cs s1 of ((r, ms), s2) \<Rightarrow> ((r, m # ms), s2)))"

section \<open>Bridge.run_ui\<close>

text \<open>
  An event of the listener: its \<^verbatim>\<open>cam_id\<close>, and the observations \<^verbatim>\<open>(x, y, waggle_angle)\<close>
  the camera's dance detector yields for it.
\<close>

record waggle_info =
  cam_id :: cam_id
  coordinates :: "(real \<times> real \<times> real) list"

text \<open>
  What the collaborators do during one iteration of the loop of \<^verbatim>\<open>Bridge.run\<close>:
  whether \<^verbatim>\<open>Screen.open()\<close> raises; the key \<^verbatim>\<open>screen.get_key()\<close> returns;
  \<^verbatim>\<open>screen.height\<close>; the drawing of the outline and of the markers (from
  \<^verbatim>\<open>get_comb_rectangle\<close> to the sensor markers), which raises or ends with the outline's bottom
  row \<^verbatim>\<open>cbottom\<close>; whether a stop request, a call of \<^verbatim>\<open>stop()\<close> from outside the loop,
  arrives during the bounded wait; and what \<^verbatim>\<open>wdd.get_message\<close> returns or raises.
\<close>

record tick =
  open_raises :: bool
  key_pressed :: "int option"
  screen_height :: int
  drawing :: "py_error + int"
  stop_request :: bool
  received :: "py_error + waggle_info option"

text \<open>The bottom log panel: the \<^verbatim>\<open>print_at\<close> calls of the last block of \<^verbatim>\<open>ui\<close>.\<close>

definition log_panel :: "int \<Rightarrow> int \<Rightarrow> string list \<Rightarrow> call list" where
  "log_panel height cbottom lg =
     (let space = height - cbottom in
      if space > 0 then
        (let tl = drop (length lg - nat space) lg
         in map (\<lambda>i. ScreenPrintAt (tl ! i) 0 (cbottom + 2 + int i))
              [0 ..< min (length tl) (nat space)])
      else [])"

definition ui :: "env \<Rightarrow> tick \<Rightarrow> stmt" where
  "ui e t s =
     (case cameras s of
        [] \<Rightarrow> (Some StopIteration, s)
      | any_side # _ \<Rightarrow>
          (let s1 = s\<lparr>calls := calls s @ [ScreenClearBuffer, ScreenGetKey]\<rparr> in
           if key_pressed t = Some 81 \<or> key_pressed t = Some 113 then
             andthen (stop e) (\<lambda>s'. (None, s'\<lparr>calls := calls s' @ [Stdout ''Aborting!'']\<rparr>)) s1
           else
             (case drawing t of
                Inl err \<Rightarrow> (Some err, s1\<lparr>calls := calls s1 @ [ScreenDrawing]\<rparr>)
              | Inr cbottom \<Rightarrow>
                  (None,
                   s1\<lparr>calls := calls s1 @ [ScreenDrawing]
                          @ [ScreenPrintAt (datetime_iso e (clock s1)) 1 1]
                          @ log_panel (screen_height t) cbottom (log_buf s1)
                          @ [ScreenRefresh],
                      clock := Suc (clock s1)\<rparr>))))"

definition run_ui :: "env \<Rightarrow> tick \<Rightarrow> stmt" where
  "run_ui e t =
     andthen
       (\<lambda>s. if screen s then (None, s)
            else if open_raises t then (Some CollaboratorError, s\<lparr>calls := calls s @ [ScreenOpen]\<rparr>)
            else (None, s\<lparr>calls := calls s @ [ScreenOpen], screen := True\<rparr>))
       (ui e t)"

section \<open>Bridge.run\<close>

text \<open>
  \<^verbatim>\<open>self.wdd.get_message(block=True, timeout=1.0)\<close>. The loop is the only thread of the
  bridge; a stop request from outside can only take effect while the loop waits here.
\<close>

definition get_message :: "env \<Rightarrow> tick \<Rightarrow> bridge \<Rightarrow> (py_error + waggle_info option) \<times> bridge" where
  "get_message e t s =
     (let s1 = s\<lparr>calls := calls s @ [WddGetMessage]\<rparr> in
      case (if stop_request t then stop e s1 else (None, s1)) of
        (Some err, s2) \<Rightarrow> (Inl err, s2)
      | (None, s2) \<Rightarrow> (received t, s2))"

text \<open>
  \<^verbatim>\<open>for message in messages: self.comb.send_message(message)\<close> over the generator
  \<^verbatim>\<open>messages\<close>: each message is sent before the generator is resumed for the next one.
\<close>

fun dispatch :: "env \<Rightarrow> cam_id \<Rightarrow> (real \<times> real \<times> real) list \<Rightarrow> stmt" where
  "dispatch e cam [] s = (None, s)"
| "dispatch e cam (c # cs) s =
     (case process_one e cam c s of
        (Inl err, s1) \<Rightarrow> (Some err, s1)
      | (Inr m, s1) \<Rightarrow>
          (case ext_call (CombSendMessage m) (send_raises e m) s1 of
             (Some err, s2) \<Rightarrow> (Some err, s2)
           | (None, s2) \<Rightarrow> dispatch e cam cs s2))"

datatype signal = Continue | Break | Raise py_error

text \<open>One iteration of the \<^verbatim>\<open>while self.running\<close> loop.\<close>

definition loop_body :: "env \<Rightarrow> tick \<Rightarrow> bridge \<Rightarrow> signal \<times> bridge" where
  "loop_body e t s =
     (case run_ui e t s of
        (Some err, s1) \<Rightarrow> (Raise err, s1)
      | (None, s1) \<Rightarrow>
          (case get_message e t s1 of
             (Inl err, s2) \<Rightarrow> (Raise err, s2)
           | (Inr waggle, s2) \<Rightarrow>
               if \<not> running s2 then
                 (case stop e s2 of
                    (Some err, s3) \<Rightarrow> (Raise err, s3)
                  | (None, s3) \<Rightarrow> (Break, s3))
               else
                 (case waggle of
                    None \<Rightarrow> (Continue, s2)
                  | Some w \<Rightarrow>
                      (let s3 = (if cam_id w \<notin> set (cameras s2)
                                 then print_fn e ''Received waggle for invalid camera ID.'' s2
                                 else s2)
                       in if cam_id w \<in> set (cameras s3) then
                            (case dispatch e (cam_id w) (coordinates w) s3 of
                               (Some err, s4) \<Rightarrow> (Raise err, s4)
                             | (None, s4) \<Rightarrow> (Continue, s4))
                          else (Raise KeyError, s3)))))"

text \<open>
  The loop over the iterations the collaborators allow for: \<open>Exhausted\<close> says that the
  loop is still running when the list of iterations ends.
\<close>

datatype outcome = Returned | Raised py_error | Exhausted

fun run_loop :: "env \<Rightarrow> tick list \<Rightarrow> bridge \<Rightarrow> outcome \<times> bridge" where
  "run_loop e [] s = (if running s then (Exhausted, s) else (Returned, s))"
| "run_loop e (t # ts) s =
     (if running s then
        (case loop_body e t s of
           (Continue, s1) \<Rightarrow> run_loop e ts s1
         | (Break, s1) \<Rightarrow> (Returned, s1)
         | (Raise err, s1) \<Rightarrow> (Raised err, s1))
      else (Returned, s))"

text \<open>
  \<^verbatim>\<open>Bridge.run\<close>: the \<^verbatim>\<open>finally\<close> clause runs \<^verbatim>\<open>stop()\<close> when the loop ends or raises; an
  exception of \<^verbatim>\<open>stop()\<close> replaces the one of the loop.
\<close>

definition run :: "env \<Rightarrow> tick list \<Rightarrow> bridge \<Rightarrow> outcome \<times> bridge" where
  "run e ts s =
     (case run_loop e ts (log_fn ''starting execution'' s) of
        (Exhausted, s1) \<Rightarrow> (Exhausted, s1)
      | (Returned, s1) \<Rightarrow>
          (case stop e s1 of
             (None, s2) \<Rightarrow> (Returned, s2)
           | (Some err, s2) \<Rightarrow> (Raised err, s2))
      | (Raised err, s1) \<Rightarrow>
          (case stop e s1 of
             (None, s2) \<Rightarrow> (Raised err, s2)
           | (Some err', s2) \<Rightarrow> (Raised err', s2)))"

section \<open>Notions used in the statements\<close>

text \<open>The calls that close a resource, and the calls that send a command to the actuators.\<close>

fun is_close :: "call \<Rightarrow> bool" where
  "is_close WddClose = True"
| "is_close CombClose = True"
| "is_close (CamClose c) = True"
| "is_close StatisticsClose = True"
| "is_close ScreenClose = True"
| "is_close c = False"

definition closes :: "call list \<Rightarrow> call list" where
  "closes cs = filter is_close cs"

fun is_send :: "call \<Rightarrow> bool" where
  "is_send (CombSendMessage m) = True"
| "is_send c = False"

definition sends :: "call list \<Rightarrow> call list" where
  "sends cs = filter is_send cs"

text \<open>
  The closes of one full stop sequence in the state \<open>s\<close>, in the order of \<^verbatim>\<open>Bridge.stop\<close>;
  whether a close raises; and the closes attempted when each one that raises ends the
  sequence: those up to and including the first that raises.
\<close>

definition close_sequence :: "bridge \<Rightarrow> call list" where
  "close_sequence s =
     [WddClose, CombClose] @ map CamClose (cameras s)
       @ (if statistics s then [StatisticsClose] else [])
       @ (if screen s then [ScreenClose] else [])"

fun close_fails :: "env \<Rightarrow> call \<Rightarrow> bool" where
  "close_fails e WddClose = wdd_close_raises e"
| "close_fails e CombClose = comb_close_raises e"
| "close_fails e StatisticsClose = statistics_close_raises e"
| "close_fails e ScreenClose = screen_close_raises e"
| "close_fails e c = False"

fun attempted :: "env \<Rightarrow> call list \<Rightarrow> call list" where
  "attempted e [] = []"
| "attempted e (c # cs) = (if close_fails e c then [c] else c # attempted e cs)"

text \<open>
  The two states of the bridge with respect to shutdown: no stop sequence has started, or
  exactly one has run.
\<close>

definition not_stopped :: "bridge \<Rightarrow> bool" where
  "not_stopped s \<longleftrightarrow> running s \<and> closes (calls s) = []"

definition stopped_once :: "env \<Rightarrow> bridge \<Rightarrow> bool" where
  "stopped_once e s \<longleftrightarrow> \<not> running s \<and> closes (calls s) = attempted e (close_sequence s)"


subsection \<open>Concrete inputs\<close>

text \<open>
  One camera \<^verbatim>\<open>cam1\<close> whose mapper sends every observation to comb point \<open>(0, 0)\<close>, world
  angle equal to the waggle angle, actuator \<open>2\<close> at distance \<open>0\<close>; no collaborator raises.
\<close>

definition demo_env :: env where
  "demo_env = \<lparr>map_to_comb = (\<lambda>cam x y a. Inr ((0, 0), (a, a), (2, 0))),
     wdd_close_raises = False, comb_close_raises = False,
     statistics_close_raises = False, screen_close_raises = False,
     send_raises = (\<lambda>m. False), fmt_1f = (\<lambda>r. ''0.0''),
     time_iso = (\<lambda>n. ''12:00:00''), datetime_iso = (\<lambda>n. ''2020-01-01T12:00:00'')\<rparr>"

definition wdd_failing_env :: env where
  "wdd_failing_env = demo_env\<lparr>wdd_close_raises := True\<rparr>"

text \<open>The bridge as \<^verbatim>\<open>Bridge.__init__\<close> leaves it, with a statistics file configured.\<close>

definition demo_bridge :: bridge where
  "demo_bridge = \<lparr>running = True, log_buf = [], statistics = True, cameras = [''cam1''],
     screen = False, clock = 0, calls = []\<rparr>"

text \<open>
  Iterations on a screen of 24 rows with the outline's bottom at row 20: one where the wait
  times out, one where \<^verbatim>\<open>q\<close> is pressed, one that receives an event of \<^verbatim>\<open>cam1\<close> with the
  observation \<open>(10, 10, 0)\<close>, one that receives the same event for the unknown camera
  \<^verbatim>\<open>cam9\<close>, and one where a stop request arrives while the event of \<^verbatim>\<open>cam1\<close> is awaited.
\<close>

definition idle_tick :: tick where
  "idle_tick = \<lparr>open_raises = False, key_pressed = None, screen_height = 24,
     drawing = Inr 20, stop_request = False, received = Inr None\<rparr>"

definition quit_tick :: tick where
  "quit_tick = idle_tick\<lparr>key_pressed := Some 113\<rparr>"

definition dance_event :: waggle_info where
  "dance_event = \<lparr>cam_id = ''cam1'', coordinates = [(10, 10, 0)]\<rparr>"

definition dance_tick :: tick where
  "dance_tick = idle_tick\<lparr>received := Inr (Some dance_event)\<rparr>"

definition unknown_cam_tick :: tick where
  "unknown_cam_tick = idle_tick\<lparr>received := Inr (Some (dance_event\<lparr>cam_id := ''cam9''\<rparr>))\<rparr>"

definition stop_request_tick :: tick where
  "stop_request_tick = dance_tick\<lparr>stop_request := True\<rparr>"

lemmas demo_defs = demo_env_def wdd_failing_env_def demo_bridge_def idle_tick_def quit_tick_def
  dance_event_def dance_tick_def unknown_cam_tick_def stop_request_tick_def

lemmas run_defs = run_def loop_body_def run_ui_def ui_def get_message_def stop_def andthen_def
  ext_call_def log_fn_def print_fn_def log_panel_def Let_def

section \<open>Logging and stop: basic facts\<close>

lemma log_fn_fields [simp]:
  "running (log_fn n s) = running s"
  "log_buf (log_fn n s) = log_buf s"
  "statistics (log_fn n s) = statistics s"
  "cameras (log_fn n s) = cameras s"
  "screen (log_fn n s) = screen s"
  "clock (log_fn n s) = clock s"
  by (simp_all add: log_fn_def)

lemma log_fn_calls:
  "calls (log_fn n s) = calls s @ (if statistics s then [LogFn n] else [])"
  by (simp add: log_fn_def)

lemma print_fn_fields [simp]:
  "running (print_fn e x s) = running s"
  "statistics (print_fn e x s) = statistics s"
  "cameras (print_fn e x s) = cameras s"
  "screen (print_fn e x s) = screen s"
  "clock (print_fn e x s) = Suc (clock s)"
  by (simp_all add: print_fn_def Let_def)

lemma print_fn_log_buf:
  "log_buf (print_fn e x s) = log_buf s @ [''['' @ time_iso e (clock s) @ ''] '' @ x]"
  by (simp add: print_fn_def Let_def)

lemma print_fn_calls:
  "calls (print_fn e x s) = calls s @ (if statistics s then [LogText x] else [])"
  by (simp add: print_fn_def Let_def)

lemma close_cameras_eq:
  "close_cameras cs s = (None, s\<lparr>calls := calls s @ map CamClose cs\<rparr>)"
  by (induction cs arbitrary: s) simp_all

lemma attempted_cams:
  "attempted e (map CamClose cs @ rest) = map CamClose cs @ attempted e rest"
  by (induction cs) simp_all

lemma stop_not_running: "\<not> running s \<Longrightarrow> stop e s = (None, s)"
  by (simp add: stop_def)

lemma stop_running:
  assumes "running s"
  shows "snd (stop e s) = s\<lparr>running := False,
            calls := calls (log_fn ''stopping execution'' s) @ attempted e (close_sequence s)\<rparr>"
    and "fst (stop e s) = (if \<exists>c\<in>set (close_sequence s). close_fails e c then Some CollaboratorError else None)"
  using assms
  by (auto simp add: stop_def andthen_def ext_call_def close_cameras_eq close_sequence_def
        attempted_cams log_fn_def)

section \<open>The direction label\<close>










section \<open>The shutdown invariant through the loop\<close>

lemma closes_simps [simp]:
  "closes [] = []"
  "closes (xs @ ys) = closes xs @ closes ys"
  "closes (c # cs) = (if is_close c then c # closes cs else closes cs)"
  by (simp_all add: closes_def)

lemma closes_attempted: "\<forall>c\<in>set cs. is_close c \<Longrightarrow> closes (attempted e cs) = attempted e cs"
  by (induction cs) simp_all

lemma closes_close_sequence [simp]:
  "closes (attempted e (close_sequence s)) = attempted e (close_sequence s)"
  by (rule closes_attempted) (auto simp add: close_sequence_def)

lemma closes_log_panel [simp]: "closes (log_panel h cb lg) = []"
  by (simp add: log_panel_def Let_def closes_def)

lemma close_sequence_cong:
  "cameras s' = cameras s \<Longrightarrow> statistics s' = statistics s \<Longrightarrow> screen s' = screen s
     \<Longrightarrow> close_sequence s' = close_sequence s"
  by (simp add: close_sequence_def)

lemma stop_from_not_stopped:
  assumes "not_stopped s" "stop e s = (r, s')"
  shows "stopped_once e s'" "log_buf s' = log_buf s" "cameras s' = cameras s"
    "statistics s' = statistics s" "screen s' = screen s"
proof -
  have r: "running s" and c: "closes (calls s) = []" using assms(1) by (simp_all add: not_stopped_def)
  have s': "s' = snd (stop e s)" using assms(2) by simp
  show "log_buf s' = log_buf s" "cameras s' = cameras s"
    "statistics s' = statistics s" "screen s' = screen s"
    by (simp_all add: s' stop_running(1) [OF r])
  then have "close_sequence s' = close_sequence s" by (simp add: close_sequence_def)
  then show "stopped_once e s'"
    by (simp add: stopped_once_def s' stop_running(1) [OF r] log_fn_calls c)
qed

lemma stop_from_stopped:
  assumes "stopped_once e s"
  shows "stop e s = (None, s)"
  using assms by (simp add: stopped_once_def stop_not_running)

lemma ui_step:
  assumes "not_stopped s" "screen s" "ui e t s = (r, s')"
  shows "(not_stopped s' \<or> stopped_once e s') \<and> log_buf s' = log_buf s \<and> cameras s' = cameras s
     \<and> statistics s' = statistics s \<and> screen s'"
proof (cases "cameras s")
  case Nil
  then show ?thesis using assms by (simp add: ui_def)
next
  case (Cons a as)
  let ?s1 = "s\<lparr>calls := calls s @ [ScreenClearBuffer, ScreenGetKey]\<rparr>"
  have ns1: "not_stopped ?s1" using assms(1) by (simp add: not_stopped_def)
  show ?thesis
  proof (cases "key_pressed t = Some 81 \<or> key_pressed t = Some 113")
    case True
    obtain r1 s2 where st: "stop e ?s1 = (r1, s2)" by (cases "stop e ?s1")
    note f = stop_from_not_stopped [OF ns1 st]
    have "stopped_once e s'"
      using assms(3) Cons True st f
      by (auto simp add: ui_def Let_def andthen_def stopped_once_def close_sequence_def
            split: option.splits)
    moreover have "log_buf s' = log_buf s \<and> cameras s' = cameras s
     \<and> statistics s' = statistics s \<and> screen s'"
      using assms(2,3) Cons True st f
      by (auto simp add: ui_def Let_def andthen_def split: option.splits)
    ultimately show ?thesis by simp
  next
    case False
    then show ?thesis
      using assms Cons
      by (auto simp add: ui_def Let_def not_stopped_def split: sum.splits)
  qed
qed

lemma run_ui_step:
  assumes "not_stopped s" "run_ui e t s = (r, s')"
  shows "(not_stopped s' \<or> stopped_once e s') \<and> log_buf s' = log_buf s \<and> cameras s' = cameras s
     \<and> statistics s' = statistics s \<and> (r = None \<longrightarrow> screen s')"
proof (cases "screen s")
  case True
  then have "ui e t s = (r, s')" using assms(2) by (simp add: run_ui_def andthen_def)
  from ui_step [OF assms(1) True this] show ?thesis by simp
next
  case False
  show ?thesis
  proof (cases "open_raises t")
    case True
    then show ?thesis using assms False
      by (auto simp add: run_ui_def andthen_def not_stopped_def)
  next
    case no: False
    let ?s1 = "s\<lparr>calls := calls s @ [ScreenOpen], screen := True\<rparr>"
    have ns1: "not_stopped ?s1" using assms(1) by (simp add: not_stopped_def)
    have "ui e t ?s1 = (r, s')" using assms(2) False no by (simp add: run_ui_def andthen_def)
    from ui_step [OF ns1 _ this] show ?thesis by simp
  qed
qed


lemma get_message_step:
  assumes "not_stopped s \<or> stopped_once e s" "get_message e t s = (r, s')"
  shows "(not_stopped s' \<or> stopped_once e s') \<and> log_buf s' = log_buf s \<and> cameras s' = cameras s
     \<and> statistics s' = statistics s \<and> screen s' = screen s"
proof -
  let ?s1 = "s\<lparr>calls := calls s @ [WddGetMessage]\<rparr>"
  have inv1: "not_stopped ?s1 \<or> stopped_once e ?s1"
    using assms(1) by (auto simp add: not_stopped_def stopped_once_def close_sequence_def)
  show ?thesis
  proof (cases "stop_request t \<and> running s")
    case True
    then have ns1: "not_stopped ?s1" using inv1 by (simp add: stopped_once_def)
    obtain r1 s2 where st: "stop e ?s1 = (r1, s2)" by (cases "stop e ?s1")
    have "s' = s2" using assms(2) True st by (auto simp add: get_message_def Let_def split: option.splits)
    then show ?thesis using stop_from_not_stopped [OF ns1 st] by simp
  next
    case False
    then have "stop_request t \<Longrightarrow> stop e ?s1 = (None, ?s1)" by (auto simp add: stop_not_running)
    then have "s' = ?s1" using assms(2) by (cases "stop_request t") (auto simp add: get_message_def Let_def)
    then show ?thesis using inv1 by simp
  qed
qed

lemma process_one_step:
  assumes "process_one e cam c s = (r, s')"
  shows "running s' = running s \<and> cameras s' = cameras s \<and> statistics s' = statistics s
     \<and> screen s' = screen s \<and> closes (calls s') = closes (calls s) \<and> prefix (log_buf s) (log_buf s')"
  using assms
  by (auto simp add: process_one_def print_fn_log_buf print_fn_calls split: prod.splits sum.splits)

lemma dispatch_step:
  assumes "dispatch e cam cs s = (r, s')"
  shows "running s' = running s \<and> cameras s' = cameras s \<and> statistics s' = statistics s
     \<and> screen s' = screen s \<and> closes (calls s') = closes (calls s) \<and> prefix (log_buf s) (log_buf s')"
  using assms
proof (induction cs arbitrary: s)
  case Nil
  then show ?case by simp
next
  case (Cons c cs)
  obtain r1 s1 where p: "process_one e cam c s = (r1, s1)" by (cases "process_one e cam c s")
  note f1 = process_one_step [OF p]
  show ?case
  proof (cases r1)
    case (Inl err)
    then show ?thesis using Cons.prems p f1 by simp
  next
    case (Inr m)
    let ?s2 = "s1\<lparr>calls := calls s1 @ [CombSendMessage m]\<rparr>"
    show ?thesis
    proof (cases "send_raises e m")
      case True
      then have "s' = ?s2" using Cons.prems p Inr by (simp add: ext_call_def)
      then show ?thesis using f1 by simp
    next
      case False
      then have "dispatch e cam cs ?s2 = (r, s')" using Cons.prems p Inr by (simp add: ext_call_def)
      from Cons.IH [OF this] show ?thesis using f1 by (auto intro: prefix_order.trans)
    qed
  qed
qed

lemma loop_body_step:
  assumes "not_stopped s" "loop_body e t s = (sig, s')"
  shows "(not_stopped s' \<or> stopped_once e s') \<and> (sig = Continue \<longrightarrow> not_stopped s')
     \<and> (sig = Break \<longrightarrow> stopped_once e s')
     \<and> prefix (log_buf s) (log_buf s') \<and> cameras s' = cameras s \<and> statistics s' = statistics s"
proof -
  obtain r1 s1 where u: "run_ui e t s = (r1, s1)" by (cases "run_ui e t s")
  note f1 = run_ui_step [OF assms(1) u]
  show ?thesis
  proof (cases r1)
    case (Some err)
    then show ?thesis using assms(2) u f1 by (auto simp add: loop_body_def)
  next
    case None
    obtain r2 s2 where g: "get_message e t s1 = (r2, s2)" by (cases "get_message e t s1")
    have inv1: "not_stopped s1 \<or> stopped_once e s1" using f1 by simp
    note f2 = get_message_step [OF inv1 g]
    show ?thesis
    proof (cases r2)
      case (Inl err)
      then show ?thesis using assms(2) u None g f1 f2 by (auto simp add: loop_body_def)
    next
      case (Inr waggle)
      show ?thesis
      proof (cases "running s2")
        case False
        then have so: "stopped_once e s2" using f2 by (simp add: not_stopped_def)
        then have "stop e s2 = (None, s2)" by (rule stop_from_stopped)
        then have "sig = Break \<and> s' = s2"
          using assms(2) u None g Inr False by (simp add: loop_body_def)
        then show ?thesis using so f1 f2 by simp
      next
        case True
        then have ns2: "not_stopped s2" using f2 by (simp add: stopped_once_def)
        show ?thesis
        proof (cases waggle)
          case None
          then have "sig = Continue \<and> s' = s2"
            using assms(2) u \<open>r1 = None\<close> g Inr True by (simp add: loop_body_def)
          then show ?thesis using ns2 f1 f2 by simp
        next
          case (Some w)
          show ?thesis
          proof (cases "cam_id w \<in> set (cameras s2)")
            case False
            then have "sig = Raise KeyError
                \<and> s' = print_fn e ''Received waggle for invalid camera ID.'' s2"
              using assms(2) u \<open>r1 = None\<close> g Inr True Some by (simp add: loop_body_def)
            then show ?thesis using ns2 f1 f2
              by (simp add: not_stopped_def print_fn_calls print_fn_log_buf)
          next
            case known: True
            obtain r4 s4 where d: "dispatch e (cam_id w) (coordinates w) s2 = (r4, s4)"
              by (cases "dispatch e (cam_id w) (coordinates w) s2")
            note f4 = dispatch_step [OF d]
            have s': "s' = s4" and "sig = Continue \<or> (\<exists>err. sig = Raise err)"
              using assms(2) u \<open>r1 = None\<close> g Inr True Some known d
              by (auto simp add: loop_body_def split: option.splits)
            moreover have "not_stopped s4" using ns2 f4 by (simp add: not_stopped_def)
            ultimately show ?thesis using f1 f2 f4 by auto
          qed
        qed
      qed
    qed
  qed
qed

lemma run_loop_step:
  assumes "not_stopped s \<or> stopped_once e s" "run_loop e ts s = (out, s')"
  shows "(not_stopped s' \<or> stopped_once e s') \<and> (out = Exhausted \<longrightarrow> running s')
     \<and> prefix (log_buf s) (log_buf s') \<and> cameras s' = cameras s \<and> statistics s' = statistics s"
  using assms
proof (induction ts arbitrary: s)
  case Nil
  then show ?case by (auto split: if_splits)
next
  case (Cons t ts)
  show ?case
  proof (cases "running s")
    case False
    then show ?thesis using Cons.prems by auto
  next
    case True
    then have ns: "not_stopped s" using Cons.prems(1) by (simp add: stopped_once_def)
    obtain sig s1 where b: "loop_body e t s = (sig, s1)" by (cases "loop_body e t s")
    note f = loop_body_step [OF ns b]
    show ?thesis
    proof (cases sig)
      case Continue
      then have "run_loop e ts s1 = (out, s')" using Cons.prems(2) True b by simp
      moreover have "not_stopped s1 \<or> stopped_once e s1" using f by simp
      ultimately have "(not_stopped s' \<or> stopped_once e s') \<and> (out = Exhausted \<longrightarrow> running s')
     \<and> prefix (log_buf s1) (log_buf s') \<and> cameras s' = cameras s1 \<and> statistics s' = statistics s1"
        by (rule Cons.IH [rotated])
      then show ?thesis using f by (auto intro: prefix_order.trans)
    next
      case Break
      then have "out = Returned \<and> s' = s1" using Cons.prems(2) True b by simp
      then show ?thesis using f by simp
    next
      case (Raise err)
      then have "out = Raised err \<and> s' = s1" using Cons.prems(2) True b by simp
      then show ?thesis using f by simp
    qed
  qed
qed

lemma stop_from_inv:
  assumes "not_stopped s \<or> stopped_once e s" "stop e s = (r, s')"
  shows "stopped_once e s' \<and> log_buf s' = log_buf s"
  using assms stop_from_not_stopped [of s e r s'] stop_from_stopped [of e s] by auto

section \<open>Unknown camera (C1)\<close>

lemma world_direction_0: "world_direction 0 = Inr ''E''"
  by (simp add: world_direction_def direction_index_def py_mod_def py_int_def py_getitem_def
        world_directions_def)

text \<open>
  C1. An event for a camera that is not configured is reported once and emits no command,
  but the loop does not continue: after the report \<^verbatim>\<open>self.cameras[waggle_cam_id]\<close> raises
  \<^verbatim>\<open>KeyError\<close>, the \<^verbatim>\<open>finally\<close> clause stops the bridge and \<^verbatim>\<open>run\<close> propagates the
  exception. Here the event arrives in the first of two iterations; the second one never
  runs (one screen refresh only).
\<close>

theorem unknown_camera_raises_KeyError:
  "fst (run demo_env [unknown_cam_tick, idle_tick] demo_bridge) = Raised KeyError
   \<and> \<not> running (snd (run demo_env [unknown_cam_tick, idle_tick] demo_bridge))
   \<and> log_buf (snd (run demo_env [unknown_cam_tick, idle_tick] demo_bridge))
       = [''[12:00:00] Received waggle for invalid camera ID.'']
   \<and> sends (calls (snd (run demo_env [unknown_cam_tick, idle_tick] demo_bridge))) = []
   \<and> count_list (calls (snd (run demo_env [unknown_cam_tick, idle_tick] demo_bridge))) ScreenRefresh = 1"
  by (simp add: demo_defs run_defs sends_def)

section \<open>Closing the resources (C2)\<close>

text \<open>
  C2, as stated, fails: \<^verbatim>\<open>Bridge.stop\<close> has no exception handling, so a close that raises
  ends the sequence. When closing the listener raises, the connector, the camera and the
  statistics sink are never closed.
\<close>

theorem stop_close_failure_counterexample:
  "running demo_bridge \<and> wdd_close_raises wdd_failing_env
   \<and> fst (stop wdd_failing_env demo_bridge) = Some CollaboratorError
   \<and> calls (snd (stop wdd_failing_env demo_bridge)) = [LogFn ''stopping execution'', WddClose]
   \<and> close_sequence demo_bridge = [WddClose, CombClose, CamClose ''cam1'', StatisticsClose]"
  by (simp add: wdd_failing_env_def demo_defs run_defs close_sequence_def)

lemma attempted_all: "\<forall>c\<in>set cs. \<not> close_fails e c \<Longrightarrow> attempted e cs = cs"
  by (induction cs) simp_all

lemma attempted_prefix: "prefix (attempted e cs) cs"
  by (induction cs) simp_all

text \<open>
  C2, amended. A running bridge's \<^verbatim>\<open>stop\<close> clears the running flag first and then closes
  the resources in the fixed order listener, connector, every camera, statistics sink if
  present, screen if opened, up to and including the first close that raises; it returns
  normally exactly when no close raises, and then the whole sequence has been closed.
\<close>

theorem stop_closes_in_order_until_failure:
  assumes "running s"
  shows "\<not> running (snd (stop e s))
    \<and> calls (snd (stop e s))
        = calls (log_fn ''stopping execution'' s) @ attempted e (close_sequence s)
    \<and> prefix (attempted e (close_sequence s)) (close_sequence s)
    \<and> (fst (stop e s) = None \<longleftrightarrow> (\<forall>c\<in>set (close_sequence s). \<not> close_fails e c))
    \<and> (fst (stop e s) = None \<longrightarrow> attempted e (close_sequence s) = close_sequence s)"
proof -
  have "fst (stop e s) = None \<longleftrightarrow> (\<forall>c\<in>set (close_sequence s). \<not> close_fails e c)"
    by (simp add: stop_running(2) [OF assms])
  moreover from this have "fst (stop e s) = None \<longrightarrow> attempted e (close_sequence s) = close_sequence s"
    by (simp add: attempted_all)
  ultimately show ?thesis
    by (simp add: stop_running(1) [OF assms] attempted_prefix)
qed

theorem stop_closes_in_order_until_failure_witness:
  "running demo_bridge
   \<and> fst (stop demo_env demo_bridge) = None
   \<and> calls (snd (stop demo_env demo_bridge))
       = [LogFn ''stopping execution'', WddClose, CombClose, CamClose ''cam1'', StatisticsClose]
   \<and> calls (snd (stop (demo_env\<lparr>comb_close_raises := True\<rparr>) demo_bridge))
       = [LogFn ''stopping execution'', WddClose, CombClose]"
proof -
  have r: "running demo_bridge" by (simp add: demo_bridge_def)
  have cs: "close_sequence demo_bridge = [WddClose, CombClose, CamClose ''cam1'', StatisticsClose]"
    by (simp add: close_sequence_def demo_bridge_def)
  have lg: "calls (log_fn ''stopping execution'' demo_bridge) = [LogFn ''stopping execution'']"
    by (simp add: log_fn_def demo_bridge_def)
  have a1: "attempted demo_env (close_sequence demo_bridge)
      = [WddClose, CombClose, CamClose ''cam1'', StatisticsClose]"
    by (simp add: cs demo_env_def)
  have a2: "attempted (demo_env\<lparr>comb_close_raises := True\<rparr>) (close_sequence demo_bridge)
      = [WddClose, CombClose]"
    by (simp add: cs demo_env_def)
  have n: "\<forall>c\<in>set (close_sequence demo_bridge). \<not> close_fails demo_env c"
    by (simp add: cs demo_env_def)
  from stop_closes_in_order_until_failure [OF r, of demo_env]
    stop_closes_in_order_until_failure [OF r, of "demo_env\<lparr>comb_close_raises := True\<rparr>"]
  show ?thesis using r lg a1 a2 n by simp
qed

section \<open>Stopping twice (C3)\<close>

lemma stop_makes_not_running: "\<not> running (snd (stop e s))"
  by (cases "running s") (simp_all add: stop_running(1) stop_not_running)

lemma run_ui_keeps_not_running: "\<not> running s \<Longrightarrow> \<not> running (snd (run_ui e t s))"
  by (auto simp add: run_ui_def ui_def andthen_def stop_not_running Let_def
        split: list.splits sum.splits)

lemma run_keeps_not_running: "\<not> running s \<Longrightarrow> \<not> running (snd (run e ts s))"
  by (cases ts) (simp_all add: run_def stop_not_running)

text \<open>
  C3. \<^verbatim>\<open>Bridge.stop\<close> is idempotent: a second call returns normally and leaves the state of
  the first call unchanged, so it makes no call on any resource; after \<^verbatim>\<open>stop\<close> the running
  flag is false, and neither a render tick nor \<^verbatim>\<open>run\<close> sets it again.
\<close>

theorem stop_idempotent:
  "stop e (snd (stop e s)) = (None, snd (stop e s))
   \<and> \<not> running (snd (stop e s))
   \<and> \<not> running (snd (run_ui e t (snd (stop e s))))
   \<and> \<not> running (snd (run e ts (snd (stop e s))))"
  using stop_makes_not_running [of e s]
  by (simp add: stop_not_running run_ui_keeps_not_running run_keeps_not_running)

theorem stop_idempotent_witness:
  "stop demo_env (snd (stop demo_env demo_bridge)) = (None, snd (stop demo_env demo_bridge))
   \<and> calls (snd (stop demo_env (snd (stop demo_env demo_bridge))))
       = [LogFn ''stopping execution'', WddClose, CombClose, CamClose ''cam1'', StatisticsClose]
   \<and> running demo_bridge \<and> \<not> running (snd (stop demo_env demo_bridge))"
proof -
  have c: "calls (snd (stop demo_env demo_bridge))
      = [LogFn ''stopping execution'', WddClose, CombClose, CamClose ''cam1'', StatisticsClose]"
    by (simp add: demo_defs run_defs)
  have r: "running demo_bridge" by (simp add: demo_bridge_def)
  from stop_idempotent [of demo_env demo_bridge idle_tick "[]"] show ?thesis
    using c r by simp
qed

section \<open>Cleanup on every exit of the loop (C4)\<close>

lemma count_closes: "is_close c \<Longrightarrow> count_list (closes cs) c = count_list cs c"
  by (induction cs) (simp_all add: closes_def)

lemma count_attempted_sequence:
  "count_list (attempted e (close_sequence s)) WddClose = 1"
proof -
  have "WddClose \<notin> set (attempted e (map CamClose (cameras s)
          @ (if statistics s then [StatisticsClose] else [])
          @ (if screen s then [ScreenClose] else [])))"
    by (auto simp add: attempted_cams)
  then show ?thesis
    by (simp add: close_sequence_def count_list_0_iff)
qed

lemma set_attempted: "set (attempted e cs) \<subseteq> set cs"
  by (induction cs) auto

lemma distinct_attempted: "distinct cs \<Longrightarrow> distinct (attempted e cs)"
  using set_attempted [of e] by (induction cs) auto

lemma distinct_close_sequence: "distinct (cameras s) \<Longrightarrow> distinct (close_sequence s)"
  by (auto simp add: close_sequence_def distinct_map inj_on_def)

lemma run_stopped_once:
  assumes "not_stopped s" "run e ts s = (out, s')" "out \<noteq> Exhausted"
  shows "stopped_once e s' \<and> cameras s' = cameras s \<and> statistics s' = statistics s
     \<and> prefix (log_buf s) (log_buf s')"
proof -
  let ?s0 = "log_fn ''starting execution'' s"
  have ns0: "not_stopped ?s0" using assms(1) by (simp add: not_stopped_def log_fn_calls)
  obtain o1 s1 where l: "run_loop e ts ?s0 = (o1, s1)" by (cases "run_loop e ts ?s0")
  have f1: "(not_stopped s1 \<or> stopped_once e s1) \<and> (o1 = Exhausted \<longrightarrow> running s1)
     \<and> prefix (log_buf ?s0) (log_buf s1) \<and> cameras s1 = cameras ?s0 \<and> statistics s1 = statistics ?s0"
    by (rule run_loop_step [OF _ l]) (simp add: ns0)
  obtain r2 s2 where st: "stop e s1 = (r2, s2)" by (cases "stop e s1")
  have f2: "stopped_once e s2 \<and> log_buf s2 = log_buf s1"
    by (rule stop_from_inv [OF _ st]) (simp add: f1)
  have "s2 = snd (stop e s1)" using st by simp
  then have c2: "cameras s2 = cameras s1 \<and> statistics s2 = statistics s1"
    by (cases "running s1") (simp_all add: stop_running(1) stop_not_running)
  have "o1 \<noteq> Exhausted" using assms(2,3) l by (auto simp add: run_def)
  then have "s' = s2" using assms(2) l st by (cases o1; cases r2) (auto simp add: run_def)
  then show ?thesis using f1 f2 c2 by simp
qed

text \<open>
  C4. Whenever \<^verbatim>\<open>Bridge.run\<close>, started on a running bridge on which nothing has been
  closed, returns or propagates an exception (whatever made the loop end: a quit key, a stop
  request during the wait, an exception raised by the rendering, by the listener, by the
  camera lookup, by a mapper or by the connector), the running flag is false and the closes
  in the call history are those of exactly one stop sequence: the listener has been closed
  exactly once and no resource twice.
\<close>

theorem run_stops_exactly_once:
  assumes "running s" "closes (calls s) = []" "distinct (cameras s)"
    and "fst (run e ts s) \<noteq> Exhausted"
  shows "\<not> running (snd (run e ts s))
    \<and> closes (calls (snd (run e ts s))) = attempted e (close_sequence (snd (run e ts s)))
    \<and> cameras (snd (run e ts s)) = cameras s
    \<and> statistics (snd (run e ts s)) = statistics s
    \<and> count_list (calls (snd (run e ts s))) WddClose = 1
    \<and> distinct (closes (calls (snd (run e ts s))))"
proof -
  obtain out s' where r: "run e ts s = (out, s')" by (cases "run e ts s")
  have ns: "not_stopped s" using assms(1,2) by (simp add: not_stopped_def)
  have "out \<noteq> Exhausted" using assms(4) r by simp
  from run_stopped_once [OF ns r this]
  have so: "stopped_once e s'" and c: "cameras s' = cameras s" and st: "statistics s' = statistics s"
    by simp_all
  from so have nr: "\<not> running s'" and cl: "closes (calls s') = attempted e (close_sequence s')"
    by (simp_all add: stopped_once_def)
  have "count_list (calls s') WddClose = count_list (closes (calls s')) WddClose"
    by (simp add: count_closes)
  then have cnt: "count_list (calls s') WddClose = 1"
    by (simp add: cl count_attempted_sequence)
  have "distinct (close_sequence s')"
    using assms(3) c by (simp add: distinct_close_sequence)
  then have "distinct (closes (calls s'))"
    by (simp add: cl distinct_attempted)
  then show ?thesis using nr cl c st cnt r by simp
qed

lemmas process_defs = process_one_def world_direction_0 vibrating_line_def degree_sign_def

lemma demo_run_returns: "fst (run demo_env [dance_tick, quit_tick] demo_bridge) = Returned"
  by (simp add: demo_defs run_defs process_defs)

lemma demo_run_screen: "screen (snd (run demo_env [dance_tick, quit_tick] demo_bridge))"
  by (simp add: demo_defs run_defs process_defs)

lemma demo_raise: "fst (run demo_env [unknown_cam_tick] demo_bridge) = Raised KeyError"
  by (simp add: demo_defs run_defs process_defs)

lemma demo_raise_screen: "screen (snd (run demo_env [unknown_cam_tick] demo_bridge))"
  by (simp add: demo_defs run_defs process_defs)

theorem run_stops_exactly_once_witness:
  "running demo_bridge \<and> closes (calls demo_bridge) = [] \<and> distinct (cameras demo_bridge)
   \<and> fst (run demo_env [dance_tick, quit_tick] demo_bridge) = Returned
   \<and> closes (calls (snd (run demo_env [dance_tick, quit_tick] demo_bridge)))
       = [WddClose, CombClose, CamClose ''cam1'', StatisticsClose, ScreenClose]
   \<and> fst (run demo_env [unknown_cam_tick] demo_bridge) = Raised KeyError
   \<and> closes (calls (snd (run demo_env [unknown_cam_tick] demo_bridge)))
       = [WddClose, CombClose, CamClose ''cam1'', StatisticsClose, ScreenClose]
   \<and> count_list (calls (snd (run demo_env [unknown_cam_tick] demo_bridge))) WddClose = 1"
proof -
  have h1: "running demo_bridge" and h2: "closes (calls demo_bridge) = []"
    and h3: "distinct (cameras demo_bridge)"
    by (simp_all add: demo_bridge_def)
  have h4: "fst (run demo_env [dance_tick, quit_tick] demo_bridge) \<noteq> Exhausted"
    by (simp add: demo_run_returns)
  have h5: "fst (run demo_env [unknown_cam_tick] demo_bridge) \<noteq> Exhausted"
    by (simp add: demo_raise)
  have a: "\<not> wdd_close_raises demo_env" "\<not> comb_close_raises demo_env"
    "\<not> statistics_close_raises demo_env" "\<not> screen_close_raises demo_env"
    by (simp_all add: demo_env_def)
  have d: "cameras demo_bridge = [''cam1'']" "statistics demo_bridge"
    by (simp_all add: demo_bridge_def)
  from run_stops_exactly_once [OF h1 h2 h3 h4] run_stops_exactly_once [OF h1 h2 h3 h5]
  show ?thesis
    using h1 h2 h3 a d
    by (simp add: demo_run_returns demo_raise demo_run_screen demo_raise_screen close_sequence_def)
qed

section \<open>The log buffer (C10)\<close>

lemma run_ui_log_buf: "log_buf (snd (run_ui e t s)) = log_buf s"
proof -
  have st: "\<And>s. log_buf (snd (stop e s)) = log_buf s"
    subgoal for s by (cases "running s") (simp_all add: stop_running(1) stop_not_running)
    done
  have u: "\<And>s. log_buf (snd (ui e t s)) = log_buf s"
    subgoal for s
      using st [of "s\<lparr>calls := calls s @ [ScreenClearBuffer, ScreenGetKey]\<rparr>"]
      by (auto simp add: ui_def Let_def andthen_def split: list.splits sum.splits prod.splits option.splits)
    done
  show ?thesis
    using u [of s] u [of "s\<lparr>calls := calls s @ [ScreenOpen], screen := True\<rparr>"]
    by (simp add: run_ui_def andthen_def)
qed

lemma stop_log_buf: "log_buf (snd (stop e s)) = log_buf s"
  by (cases "running s") (simp_all add: stop_running(1) stop_not_running)

lemma process_log_prefix: "prefix (log_buf s) (log_buf (snd (process e cam cs s)))"
proof (induction cs arbitrary: s)
  case Nil
  show ?case by simp
next
  case (Cons c cs)
  obtain r1 s1 where p: "process_one e cam c s = (r1, s1)" by (cases "process_one e cam c s")
  have f: "prefix (log_buf s) (log_buf s1)" using process_one_step [OF p] by simp
  show ?case
  proof (cases r1)
    case (Inl err)
    then show ?thesis using p f by simp
  next
    case (Inr m)
    have "prefix (log_buf s1) (log_buf (snd (process e cam cs s1)))" by (rule Cons.IH)
    with f have "prefix (log_buf s) (log_buf (snd (process e cam cs s1)))"
      by (rule prefix_order.trans)
    then show ?thesis using p Inr by (auto split: prod.splits)
  qed
qed

lemma get_message_log_buf: "log_buf (snd (get_message e t s)) = log_buf s"
  using stop_log_buf [of e "s\<lparr>calls := calls s @ [WddGetMessage]\<rparr>"]
  by (auto simp add: get_message_def Let_def split: prod.splits option.splits)

lemma loop_body_log_prefix: "prefix (log_buf s) (log_buf (snd (loop_body e t s)))"
proof -
  obtain r1 s1 where u: "run_ui e t s = (r1, s1)" by (cases "run_ui e t s")
  obtain r2 s2 where g: "get_message e t s1 = (r2, s2)" by (cases "get_message e t s1")
  obtain r3 s3 where st: "stop e s2 = (r3, s3)" by (cases "stop e s2")
  have l1: "log_buf s1 = log_buf s" using run_ui_log_buf [of e t s] u by simp
  have l2: "log_buf s2 = log_buf s" using get_message_log_buf [of e t s1] g l1 by simp
  have l3: "log_buf s3 = log_buf s" using stop_log_buf [of e s2] st l2 by simp
  have d: "\<And>w r4 s4. dispatch e (cam_id w) (coordinates w) s2 = (r4, s4)
      \<Longrightarrow> prefix (log_buf s) (log_buf s4)"
    using dispatch_step l2 by metis
  show ?thesis
    using u g st l1 l2 l3 d
    by (auto simp add: loop_body_def print_fn_log_buf Let_def
          split: option.splits sum.splits prod.splits)
qed

lemma run_loop_log_prefix: "prefix (log_buf s) (log_buf (snd (run_loop e ts s)))"
proof (induction ts arbitrary: s)
  case Nil
  show ?case by simp
next
  case (Cons t ts)
  obtain sig s1 where b: "loop_body e t s = (sig, s1)" by (cases "loop_body e t s")
  have p1: "prefix (log_buf s) (log_buf s1)" using loop_body_log_prefix [of s e t] b by simp
  have "prefix (log_buf s1) (log_buf (snd (run_loop e ts s1)))" by (rule Cons.IH)
  with p1 have "prefix (log_buf s) (log_buf (snd (run_loop e ts s1)))"
    by (rule prefix_order.trans)
  then show ?case using b p1 by (cases sig) simp_all
qed

lemma run_log_prefix: "prefix (log_buf s) (log_buf (snd (run e ts s)))"
proof -
  let ?s0 = "log_fn ''starting execution'' s"
  obtain o1 s1 where l: "run_loop e ts ?s0 = (o1, s1)" by (cases "run_loop e ts ?s0")
  have p: "prefix (log_buf s) (log_buf s1)" using run_loop_log_prefix [of ?s0 e ts] l by simp
  have "log_buf (snd (stop e s1)) = log_buf s1" by (rule stop_log_buf)
  then show ?thesis using l p
    by (cases o1) (auto simp add: run_def split: prod.splits option.splits)
qed

text \<open>
  C10. The log buffer is append-only and unbounded: \<^verbatim>\<open>print_fn\<close> appends exactly one
  timestamped line at the end, whatever the length of the buffer; \<^verbatim>\<open>log_fn\<close>, \<^verbatim>\<open>stop\<close> and
  the render tick leave the buffer as it is; \<^verbatim>\<open>HiveSide.process\<close> and \<^verbatim>\<open>run\<close> only extend it
  at the end, so its length never decreases.
\<close>

theorem log_buffer_append_only:
  "log_buf (print_fn e x s) = log_buf s @ [''['' @ time_iso e (clock s) @ ''] '' @ x]
   \<and> length (log_buf (print_fn e x s)) = Suc (length (log_buf s))
   \<and> log_buf (log_fn name s) = log_buf s
   \<and> log_buf (snd (stop e s)) = log_buf s
   \<and> log_buf (snd (run_ui e t s)) = log_buf s
   \<and> prefix (log_buf s) (log_buf (snd (process e cam cs s)))
   \<and> prefix (log_buf s) (log_buf (snd (run e ts s)))
   \<and> length (log_buf s) \<le> length (log_buf (snd (run e ts s)))"
  using prefix_length_le [OF run_log_prefix [of s e ts]]
  by (simp add: print_fn_log_buf stop_log_buf run_ui_log_buf process_log_prefix run_log_prefix)

theorem log_buffer_append_only_witness:
  "log_buf (print_fn demo_env ''hello'' demo_bridge) = [''[12:00:00] hello'']
   \<and> log_buf (print_fn demo_env ''again'' (print_fn demo_env ''hello'' demo_bridge))
       = [''[12:00:00] hello'', ''[12:00:00] again'']"
proof -
  have t: "time_iso demo_env 0 = ''12:00:00''" "time_iso demo_env (Suc 0) = ''12:00:00''"
    by (simp_all add: demo_env_def)
  have l: "log_buf demo_bridge = []" "clock demo_bridge = 0"
    by (simp_all add: demo_bridge_def)
  from log_buffer_append_only [of demo_env "''hello''" demo_bridge "''x''" idle_tick "''cam1''" "[]" "[]"]
    log_buffer_append_only [of demo_env "''again''" "print_fn demo_env ''hello'' demo_bridge"
      "''x''" idle_tick "''cam1''" "[]" "[]"]
  show ?thesis using t l by simp
qed

section \<open>The direction buckets (C5)\<close>





section \<open>One command for each observation (C6, C9)\<close>

lemma process_one_message:
  "process_one e cam c s = (Inr m, s') \<Longrightarrow> signal_index m = 1 \<and> side m = 1"
  by (auto simp add: process_one_def split: prod.splits sum.splits)

lemma process_messages:
  "\<forall>m\<in>set (snd (fst (process e cam cs s))). signal_index m = 1 \<and> side m = 1"
proof (induction cs arbitrary: s)
  case Nil
  show ?case by simp
next
  case (Cons c cs)
  obtain r1 s1 where p: "process_one e cam c s = (r1, s1)" by (cases "process_one e cam c s")
  show ?case
  proof (cases r1)
    case (Inl err)
    then show ?thesis using p by simp
  next
    case (Inr m)
    then have "signal_index m = 1 \<and> side m = 1" using p process_one_message by blast
    then show ?thesis using p Inr Cons.IH [of s1] by (auto split: prod.splits)
  qed
qed




text \<open>
  C9. Every command a \<^verbatim>\<open>HiveSide\<close> yields has \<^verbatim>\<open>side = 1\<close>, whatever its camera, the
  mapper and the observations.
\<close>

theorem every_command_has_side_one:
  "\<forall>m\<in>set (snd (fst (process e cam cs s))). side m = 1"
  using process_messages [of e cam cs s] by blast

theorem every_command_has_side_one_witness:
  "snd (fst (process demo_env ''cam1'' [(10, 10, 0)] demo_bridge))
     = [\<lparr>idx = 2, signal_index = 1, side = 1\<rparr>]
   \<and> snd (fst (process demo_env ''cam2'' [(10, 10, 0)] demo_bridge))
     = [\<lparr>idx = 2, signal_index = 1, side = 1\<rparr>]
   \<and> side (hd (snd (fst (process demo_env ''cam1'' [(10, 10, 0)] demo_bridge)))) = 1
   \<and> side (hd (snd (fst (process demo_env ''cam2'' [(10, 10, 0)] demo_bridge)))) = 1"
proof -
  have p: "\<And>cam. snd (fst (process demo_env cam [(10, 10, 0)] demo_bridge))
     = [\<lparr>idx = 2, signal_index = 1, side = 1\<rparr>]"
    by (simp add: process_one_def world_direction_0 demo_env_def)
  from every_command_has_side_one [of demo_env "''cam1''" "[(10, 10, 0)]" demo_bridge]
    every_command_has_side_one [of demo_env "''cam2''" "[(10, 10, 0)]" demo_bridge]
  show ?thesis unfolding p by simp
qed

section \<open>A batch pulled from the listener (C7)\<close>

lemma process_one_fst: "fst (process_one e cam c s) = fst (process_one e cam c s0)"
  by (simp add: process_one_def split: prod.splits sum.splits)

lemma process_fst: "fst (process e cam cs s) = fst (process e cam cs s0)"
proof (induction cs arbitrary: s s0)
  case Nil
  show ?case by simp
next
  case (Cons c cs)
  obtain r1 s1 where p: "process_one e cam c s = (r1, s1)" by (cases "process_one e cam c s")
  obtain r1' s1' where p': "process_one e cam c s0 = (r1', s1')" by (cases "process_one e cam c s0")
  have r: "r1' = r1" using process_one_fst [of e cam c s s0] p p' by simp
  show ?case
  proof (cases r1)
    case (Inl err)
    then show ?thesis using p p' r by simp
  next
    case (Inr m)
    have "fst (process e cam cs s1) = fst (process e cam cs s1')" by (rule Cons.IH)
    then show ?thesis using p p' r Inr by (auto split: prod.splits)
  qed
qed

lemma sends_simps [simp]:
  "sends [] = []"
  "sends (xs @ ys) = sends xs @ sends ys"
  "sends (c # cs) = (if is_send c then c # sends cs else sends cs)"
  by (simp_all add: sends_def)

lemma sends_log_panel [simp]: "sends (log_panel h cb lg) = []"
  by (simp add: log_panel_def Let_def sends_def)

lemma dispatch_sends:
  assumes "fst (fst (process e cam cs s)) = None"
    and "\<forall>m\<in>set (snd (fst (process e cam cs s))). \<not> send_raises e m"
  shows "fst (dispatch e cam cs s) = None
    \<and> sends (calls (snd (dispatch e cam cs s)))
        = sends (calls s) @ map CombSendMessage (snd (fst (process e cam cs s)))"
  using assms
proof (induction cs arbitrary: s)
  case Nil
  show ?case by simp
next
  case (Cons c cs)
  obtain r1 s1 where p: "process_one e cam c s = (r1, s1)" by (cases "process_one e cam c s")
  obtain r ms s2 where q: "process e cam cs s1 = ((r, ms), s2)"
    by (cases "process e cam cs s1") auto
  show ?case
  proof (cases r1)
    case (Inl err)
    then show ?thesis using Cons.prems(1) p by simp
  next
    case (Inr m)
    let ?s1' = "s1\<lparr>calls := calls s1 @ [CombSendMessage m]\<rparr>"
    have ns: "\<not> send_raises e m" using Cons.prems(2) p Inr q by simp
    have f: "fst (process e cam cs ?s1') = fst (process e cam cs s1)" by (rule process_fst)
    have "fst (fst (process e cam cs ?s1')) = None" using Cons.prems(1) p Inr q f by simp
    moreover have "\<forall>m\<in>set (snd (fst (process e cam cs ?s1'))). \<not> send_raises e m"
      using Cons.prems(2) p Inr q f by simp
    ultimately have ih: "fst (dispatch e cam cs ?s1') = None
      \<and> sends (calls (snd (dispatch e cam cs ?s1')))
        = sends (calls ?s1') @ map CombSendMessage (snd (fst (process e cam cs ?s1')))"
      by (rule Cons.IH)
    have c1: "sends (calls s1) = sends (calls s)"
      using p Inr by (auto simp add: process_one_def print_fn_calls split: prod.splits sum.splits)
    show ?thesis using ih p Inr q f ns c1 by (simp add: ext_call_def)
  qed
qed

text \<open>
  C7, as stated, fails: the running flag is checked right after the wait, before the batch
  is looked at. When a stop request arrives during the wait that returns an event with one
  observation, the loop breaks: no command is sent and no line is logged for the batch.
\<close>

theorem stop_request_discards_batch_counterexample:
  "fst (get_message demo_env stop_request_tick (snd (run_ui demo_env stop_request_tick demo_bridge)))
     = Inr (Some dance_event)
   \<and> coordinates dance_event = [(10, 10, 0)]
   \<and> fst (loop_body demo_env stop_request_tick demo_bridge) = Break
   \<and> sends (calls (snd (loop_body demo_env stop_request_tick demo_bridge))) = []
   \<and> log_buf (snd (loop_body demo_env stop_request_tick demo_bridge)) = []"
  by (simp add: demo_defs run_defs)

lemma demo_dance_run_ui:
  "fst (run_ui demo_env dance_tick demo_bridge) = None"
  by (simp add: demo_defs run_defs)

lemma demo_dance_get_message:
  "fst (get_message demo_env dance_tick (snd (run_ui demo_env dance_tick demo_bridge)))
     = Inr (Some dance_event)"
  by (simp add: demo_defs run_defs)

text \<open>
  C7, amended. In an iteration whose render tick returns and whose wait yields an event:
  when the running flag is still true after the wait, the camera is configured and neither
  the processing nor the sending raises, the iteration sends every command of the batch,
  in order, and ends with the flag still true, so all of them are sent before the flag is
  checked again; when the flag is false after the wait, the loop breaks in the state the
  wait left, and the batch is dropped.
\<close>

theorem batch_dispatched_when_running_after_wait:
  assumes "run_ui e t s = (None, s1)" and "get_message e t s1 = (Inr (Some w), s2)"
  shows "(running s2 \<and> cam_id w \<in> set (cameras s2)
          \<and> fst (fst (process e (cam_id w) (coordinates w) s2)) = None
          \<and> (\<forall>m\<in>set (snd (fst (process e (cam_id w) (coordinates w) s2))). \<not> send_raises e m)
         \<longrightarrow> fst (loop_body e t s) = Continue
            \<and> sends (calls (snd (loop_body e t s)))
                = sends (calls s2)
                  @ map CombSendMessage (snd (fst (process e (cam_id w) (coordinates w) s2)))
            \<and> running (snd (loop_body e t s)))
    \<and> (\<not> running s2 \<longrightarrow> loop_body e t s = (Break, s2))"
proof (intro conjI impI)
  assume "\<not> running s2"
  then show "loop_body e t s = (Break, s2)"
    using assms by (simp add: loop_body_def stop_not_running)
next
  assume a: "running s2 \<and> cam_id w \<in> set (cameras s2)
          \<and> fst (fst (process e (cam_id w) (coordinates w) s2)) = None
          \<and> (\<forall>m\<in>set (snd (fst (process e (cam_id w) (coordinates w) s2))). \<not> send_raises e m)"
  obtain r4 s4 where d: "dispatch e (cam_id w) (coordinates w) s2 = (r4, s4)"
    by (cases "dispatch e (cam_id w) (coordinates w) s2")
  have ds: "fst (dispatch e (cam_id w) (coordinates w) s2) = None
    \<and> sends (calls (snd (dispatch e (cam_id w) (coordinates w) s2)))
        = sends (calls s2) @ map CombSendMessage (snd (fst (process e (cam_id w) (coordinates w) s2)))"
    by (rule dispatch_sends) (simp_all add: a)
  have lb: "loop_body e t s = (Continue, s4)"
    using assms a d ds by (simp add: loop_body_def)
  show "fst (loop_body e t s) = Continue" using lb by simp
  show "sends (calls (snd (loop_body e t s)))
                = sends (calls s2)
                  @ map CombSendMessage (snd (fst (process e (cam_id w) (coordinates w) s2)))"
    using lb d ds by simp
  show "running (snd (loop_body e t s))"
    using lb dispatch_step [OF d] a by simp
qed

theorem batch_dispatched_when_running_after_wait_witness:
  "fst (loop_body demo_env dance_tick demo_bridge) = Continue
   \<and> sends (calls (snd (loop_body demo_env dance_tick demo_bridge)))
       = [CombSendMessage \<lparr>idx = 2, signal_index = 1, side = 1\<rparr>]
   \<and> running (snd (loop_body demo_env dance_tick demo_bridge))
   \<and> fst (loop_body demo_env stop_request_tick demo_bridge) = Break
   \<and> sends (calls (snd (loop_body demo_env stop_request_tick demo_bridge))) = []"
proof -
  let ?s1 = "snd (run_ui demo_env dance_tick demo_bridge)"
  let ?s2 = "snd (get_message demo_env dance_tick ?s1)"
  let ?u1 = "snd (run_ui demo_env stop_request_tick demo_bridge)"
  let ?u2 = "snd (get_message demo_env stop_request_tick ?u1)"
  have h1: "run_ui demo_env dance_tick demo_bridge = (None, ?s1)"
    by (rule prod_eqI) (simp_all add: demo_dance_run_ui)
  have h2: "get_message demo_env dance_tick ?s1 = (Inr (Some dance_event), ?s2)"
    by (rule prod_eqI) (simp_all add: demo_dance_get_message)
  have k1: "run_ui demo_env stop_request_tick demo_bridge = (None, ?u1)"
    by (rule prod_eqI) (simp_all add: demo_defs run_defs)
  have k2: "get_message demo_env stop_request_tick ?u1 = (Inr (Some dance_event), ?u2)"
    by (rule prod_eqI) (simp_all add: demo_defs run_defs)
  have r2: "running ?s2" and c2: "cam_id dance_event \<in> set (cameras ?s2)"
    and e2: "sends (calls ?s2) = []"
    by (simp_all add: demo_defs run_defs)
  have p: "fst (process demo_env (cam_id dance_event) (coordinates dance_event) ?s2)
      = (None, [\<lparr>idx = 2, signal_index = 1, side = 1\<rparr>])"
    by (simp add: dance_event_def process_one_def world_direction_0 demo_env_def)
  have n: "\<not> send_raises demo_env \<lparr>idx = 2, signal_index = 1, side = 1\<rparr>"
    by (simp add: demo_env_def)
  have nr: "\<not> running ?u2" and eu: "sends (calls ?u2) = []"
    by (simp_all add: demo_defs run_defs)
  from batch_dispatched_when_running_after_wait [OF h1 h2]
    batch_dispatched_when_running_after_wait [OF k1 k2]
  show ?thesis using r2 c2 e2 p n nr eu by simp
qed

section \<open>The log panel (C8)\<close>

lemma log_panel_lines:
  assumes "0 < height - cbottom"
  shows "log_panel height cbottom lg
     = map (\<lambda>i. ScreenPrintAt (lg ! (length lg - min (length lg) (nat (height - cbottom)) + i)) 0
                  (cbottom + 2 + int i))
         [0 ..< min (length lg) (nat (height - cbottom))]"
  using assms by (auto simp add: log_panel_def Let_def min_def)

lemma log_panel_no_space: "height - cbottom \<le> 0 \<Longrightarrow> log_panel height cbottom lg = []"
  by (simp add: log_panel_def)

text \<open>
  C8. The panel takes the last \<^verbatim>\<open>space = height - cbottom\<close> lines of the log but draws them
  from row \<^verbatim>\<open>cbottom + 2\<close> on: on a screen of 24 rows (rows 0 to 23) with the outline's bottom
  at row 20 and five lines logged, the four most recent lines are drawn at rows 22 to 25,
  the two most recent ones below the last row of the screen.
\<close>

theorem log_panel_overflows_display:
  "log_panel 24 20 [''line1'', ''line2'', ''line3'', ''line4'', ''line5'']
     = [ScreenPrintAt ''line2'' 0 22, ScreenPrintAt ''line3'' 0 23,
        ScreenPrintAt ''line4'' 0 24, ScreenPrintAt ''line5'' 0 25]"
  by (simp add: log_panel_def Let_def upt_rec)

end
